theory Spec2Isabelle
  imports Complex_Main "HOL-Library.Multiset"
begin

section \<open>Common data\<close>

text \<open>
  The repository is Python over pandas and numpy.  Prices, indicator values, thresholds,
  rewards and cash amounts are floats in the source; they are modelled as \<open>real\<close>, so the
  theorems below speak about the arithmetic the code writes down, not about its rounding.
  The one exception is the market simulator's second model, in binary64 arithmetic, for
  the question of whether its result depends on the order of the rows.
  Positions, actions and Q-table states are Python ints (\<open>int\<close>); positions in a list or
  an array are \<open>nat\<close>.  A date is the number of a calendar day.
\<close>

type_synonym date = nat

datatype pyerr = IndexError | KeyError | ValueError | ZeroDivisionError

definition bindE :: "pyerr + 'a \<Rightarrow> ('a \<Rightarrow> pyerr + 'b) \<Rightarrow> pyerr + 'b" where
  "bindE m f = (case m of Inl e \<Rightarrow> Inl e | Inr x \<Rightarrow> f x)"

text \<open>Position of the first occurrence of a value in a list.\<close>

fun index_of :: "'a \<Rightarrow> 'a list \<Rightarrow> nat option" where
  "index_of v [] = None"
| "index_of v (x # xs) =
     (if x = v then Some 0 else map_option Suc (index_of v xs))"

text \<open>\<open>xs.iloc[j]\<close> / \<open>xs[j]\<close> for a non-negative position: IndexError out of range.\<close>

definition iloc :: "'a list \<Rightarrow> nat \<Rightarrow> pyerr + 'a" where
  "iloc xs j = (if j < length xs then Inr (xs ! j) else Inl IndexError)"

text \<open>\<open>xs.iloc[-1]\<close>: the last element, IndexError on an empty sequence.\<close>

definition iloc_last :: "'a list \<Rightarrow> pyerr + 'a" where
  "iloc_last xs = (case xs of [] \<Rightarrow> Inl IndexError | _ # _ \<Rightarrow> Inr (last xs))"

section \<open>strategy.py: the StrategyLearner class\<close>

text \<open>The class constants for positions and order signals.\<close>

definition LONG :: int where "LONG = 1"
definition CASH :: int where "CASH = 0"
definition SHORT :: int where "SHORT = - 1"

subsection \<open>discretize\<close>

text \<open>
  \<open>thresholds[i][thresholds[i] >= df_features[i]][0]\<close>: the first entry of row \<open>i\<close> that is
  at least the feature value; indexing the empty selection with \<open>[0]\<close> raises IndexError.
\<close>

definition first_ge :: "real list \<Rightarrow> real \<Rightarrow> pyerr + real" where
  "first_ge row v =
     (case filter (\<lambda>t. t \<ge> v) row of [] \<Rightarrow> Inl IndexError | t # _ \<Rightarrow> Inr t)"

text \<open>
  \<open>np.where(thresholds == thres)[1][0]\<close>: \<open>np.where\<close> on the whole two-dimensional table
  lists the matching cells in row-major order; \<open>[1]\<close> takes their column numbers and
  \<open>[0]\<close> the first of them.  So the result is the column of the first match in the first
  row (from the top of the table) that holds the value at all.
\<close>

fun where_first_col :: "real list list \<Rightarrow> real \<Rightarrow> pyerr + nat" where
  "where_first_col [] v = Inl IndexError"
| "where_first_col (r # rs) v =
     (case index_of v r of Some j \<Rightarrow> Inr j | None \<Rightarrow> where_first_col rs v)"

text \<open>
  The body of the \<open>for i in range(len(df_features))\<close> loop, over the list of the
  remaining values of \<open>i\<close>.  The method reads one attribute of the learner,
  \<open>self.num_steps\<close>, which is the first argument here.
\<close>

fun discretize_loop ::
  "nat \<Rightarrow> real list \<Rightarrow> real list list \<Rightarrow> nat list \<Rightarrow> int \<Rightarrow> pyerr + int" where
  "discretize_loop ns feats thresholds [] state = Inr state"
| "discretize_loop ns feats thresholds (i # is) state =
     bindE (iloc thresholds i) (\<lambda>row.
     bindE (first_ge row (feats ! i)) (\<lambda>thres.
     bindE (where_first_col thresholds thres) (\<lambda>thres_i.
       discretize_loop ns feats thresholds is (state + int thres_i * int ns ^ i))))"

definition discretize :: "nat \<Rightarrow> real list \<Rightarrow> int \<Rightarrow> real list list \<Rightarrow> pyerr + int" where
  "discretize ns df_features non_neg_position thresholds =
     discretize_loop ns df_features thresholds [0..<length df_features]
       (non_neg_position * int ns ^ length df_features)"

subsection \<open>get_position and get_daily_reward\<close>

definition get_position :: "int \<Rightarrow> int \<Rightarrow> int" where
  "get_position old_pos signal =
     (if old_pos < LONG \<and> signal = LONG then LONG
      else if old_pos > SHORT \<and> signal = SHORT then SHORT
      else CASH)"

definition get_daily_reward :: "real \<Rightarrow> real \<Rightarrow> int \<Rightarrow> real" where
  "get_daily_reward prev_price curr_price position =
     real_of_int position * ((curr_price / prev_price) - 1)"

subsection \<open>get_thresholds\<close>

text \<open>
  A feature frame: the date index and one list of values per indicator column, each as
  long as the index (\<open>shape[0]\<close> is the length of the index, \<open>shape[1]\<close> the number of
  columns).  Rows with a NaN were removed by \<open>dropna\<close> in \<open>get_features\<close>.
\<close>

record DataFrame =
  df_index :: "date list"
  df_columns :: "real list list"

definition wf_frame :: "DataFrame \<Rightarrow> bool" where
  "wf_frame df =
     (distinct (df_index df) \<and> list_all (\<lambda>c. length c = length (df_index df)) (df_columns df))"

text \<open>\<open>df.loc[date]\<close>: the row labelled \<open>date\<close>, KeyError when the label is absent.\<close>

definition loc_row :: "DataFrame \<Rightarrow> date \<Rightarrow> pyerr + real list" where
  "loc_row df d =
     (case index_of d (df_index df) of
        None \<Rightarrow> Inl KeyError
      | Some j \<Rightarrow> Inr (map (\<lambda>c. c ! j) (df_columns df)))"

text \<open>
  \<open>round(n / m)\<close> in Python 3 for non-negative ints, \<open>m > 0\<close>: the quotient is a float and
  \<open>round\<close> takes the nearest integer, a tie going to the even neighbour.
\<close>

definition py_round_div :: "nat \<Rightarrow> nat \<Rightarrow> nat" where
  "py_round_div n m =
     (let q = n div m; r = n mod m
      in if 2 * r < m then q
         else if 2 * r > m then q + 1
         else if even q then q else q + 1)"

text \<open>The inner loop \<open>for step in range(num_steps)\<close> on one sorted column.\<close>

fun thres_row :: "nat \<Rightarrow> nat \<Rightarrow> real list \<Rightarrow> nat list \<Rightarrow> pyerr + real list" where
  "thres_row step_size num_steps sorted_col [] = Inr []"
| "thres_row step_size num_steps sorted_col (step # steps) =
     bindE (if step < num_steps - 1 then iloc sorted_col ((step + 1) * step_size)
            else iloc_last sorted_col) (\<lambda>t.
     bindE (thres_row step_size num_steps sorted_col steps) (\<lambda>ts. Inr (t # ts)))"

text \<open>The outer loop \<open>for i, feat in enumerate(df_features.columns)\<close>.\<close>

fun thres_table :: "nat \<Rightarrow> nat \<Rightarrow> real list list \<Rightarrow> pyerr + real list list" where
  "thres_table step_size num_steps [] = Inr []"
| "thres_table step_size num_steps (c # cs) =
     bindE (thres_row step_size num_steps (sort c) [0..<num_steps]) (\<lambda>r.
     bindE (thres_table step_size num_steps cs) (\<lambda>rs. Inr (r # rs)))"

definition get_thresholds :: "DataFrame \<Rightarrow> nat \<Rightarrow> pyerr + real list list" where
  "get_thresholds df_features num_steps =
     (if num_steps = 0 then Inl ZeroDivisionError
      else let step_size = py_round_div (length (df_index df_features)) num_steps
           in thres_table step_size num_steps (df_columns df_features))"

subsection \<open>has_converged\<close>

text \<open>
  \<open>patience\<close> is a count of epochs, a \<open>nat\<close>.  The slice \<open>cum_returns[-patience:]\<close> is the
  last \<open>patience\<close> entries, and for \<open>patience = 0\<close> it is \<open>cum_returns[0:]\<close>, the whole list.
  \<open>len(set(xs))\<close> is the number of distinct entries; \<open>max\<close> of an empty list raises
  ValueError.
\<close>

definition has_converged :: "real list \<Rightarrow> nat \<Rightarrow> pyerr + bool" where
  "has_converged cum_returns patience =
     (if patience > length cum_returns then Inr False
      else
        let latest_returns =
              (if patience = 0 then cum_returns
               else drop (length cum_returns - patience) cum_returns)
        in if length (remdups latest_returns) = 1 then Inr True
           else case cum_returns of
                  [] \<Rightarrow> Inl ValueError
                | _ # _ \<Rightarrow>
                    let max_return = Max (set cum_returns)
                    in if max_return \<in> set latest_returns then
                         (if max_return \<notin> set (take (length cum_returns - patience) cum_returns)
                          then Inr False else Inr True)
                       else Inr True)"

subsection \<open>The daily walks of add_evidence and test_policy\<close>

text \<open>
  The Q-learning agent (module \<open>QLearner\<close>) is not part of the sources; it is a parameter:
  a state \<open>'q\<close> and \<open>act q call\<close>, which answers the call
  \<open>act(state, reward, update, done)\<close> with an action and the agent's next state.
\<close>

record act_call =
  call_state :: int
  call_reward :: real
  call_update :: bool
  call_done :: bool

text \<open>
  What one pass of the loop body did on one date: the position coming into the day, the
  call made to the agent and its answer, the value stored in \<open>orders.loc[date]\<close> and the
  position after \<open>position += new_pos\<close>.
\<close>

record day_log =
  log_date :: date
  log_position :: int
  log_call :: act_call
  log_action :: int
  log_order :: int
  log_position_after :: int

text \<open>A price series \<open>df_prices[symbol]\<close>: dates with their adjusted close.\<close>

type_synonym series = "(date \<times> real) list"

definition loc_price :: "series \<Rightarrow> date \<Rightarrow> pyerr + real" where
  "loc_price s d = (case map_of s d of None \<Rightarrow> Inl KeyError | Some v \<Rightarrow> Inr v)"

text \<open>\<open>s.iloc[k]\<close> for a Python int \<open>k\<close>; a negative \<open>k\<close> counts from the end.\<close>

definition iloc_int :: "'a list \<Rightarrow> int \<Rightarrow> pyerr + 'a" where
  "iloc_int xs k =
     (let n = int (length xs); j = (if k < 0 then n + k else k)
      in if 0 \<le> j \<and> j < n then Inr (xs ! nat j) else Inl IndexError)"

text \<open>
  The loop \<open>for day, date in enumerate(df_features.index)\<close> of one epoch of
  \<open>add_evidence\<close> (lines 200 to 226), over the remaining pairs \<open>(day, date)\<close>, with the
  running \<open>position\<close> and the agent's state.  The calls with \<open>update=False\<close> do not pass
  \<open>done\<close>; its default is recorded as False.
\<close>

fun add_evidence_days ::
  "nat \<Rightarrow> ('q \<Rightarrow> act_call \<Rightarrow> int \<times> 'q) \<Rightarrow> series \<Rightarrow> DataFrame \<Rightarrow> real list list \<Rightarrow>
   (nat \<times> date) list \<Rightarrow> int \<Rightarrow> 'q \<Rightarrow> pyerr + (day_log list \<times> int \<times> 'q)" where
  "add_evidence_days ns act df_prices df_features thresholds [] position q =
     Inr ([], position, q)"
| "add_evidence_days ns act df_prices df_features thresholds ((day, d) # rest) position q =
     bindE (loc_row df_features d) (\<lambda>row.
     bindE (discretize ns row (position + 1) thresholds) (\<lambda>state.
     bindE (if d = hd (df_index df_features)
            then Inr \<lparr>call_state = state, call_reward = 0,
                      call_update = False, call_done = False\<rparr>
            else
              bindE (iloc_int (map snd df_prices) (int day - 1)) (\<lambda>prev_price.
              bindE (loc_price df_prices d) (\<lambda>curr_price.
                Inr \<lparr>call_state = state,
                     call_reward = get_daily_reward prev_price curr_price position,
                     call_update = True,
                     call_done = (d = last (df_index df_features))\<rparr>))) (\<lambda>call.
       let (action, q') = act q call;
           new_pos = (if d = last (df_index df_features) then - position
                      else get_position position (action - 1))
       in bindE (add_evidence_days ns act df_prices df_features thresholds rest
                   (position + new_pos) q') (\<lambda>(logs, p, qf).
            Inr (\<lparr>log_date = d, log_position = position, log_call = call,
                   log_action = action, log_order = new_pos,
                   log_position_after = position + new_pos\<rparr> # logs, p, qf)))))"

text \<open>
  One epoch of \<open>add_evidence\<close> up to the end of the walk: prices and features of the
  training period, the thresholds, and the walk from \<open>position = CASH\<close>.  The two helpers
  of the period are parameters: \<open>get_prices start end\<close> is
  \<open>get_data([symbol], pd.date_range(start, end))[symbol]\<close> and \<open>get_features\<close> is the
  method of that name, whose indicator functions (module \<open>indicators\<close>) are not part of
  the sources.  The rest of the epoch (replay, portfolio statistics, convergence test)
  reads \<open>orders\<close> and changes neither it nor \<open>position\<close>.
\<close>

definition add_evidence_epoch ::
  "nat \<Rightarrow> ('q \<Rightarrow> act_call \<Rightarrow> int \<times> 'q) \<Rightarrow> (date \<Rightarrow> date \<Rightarrow> series) \<Rightarrow> (series \<Rightarrow> DataFrame) \<Rightarrow>
   date \<Rightarrow> date \<Rightarrow> 'q \<Rightarrow> pyerr + (day_log list \<times> int \<times> 'q)" where
  "add_evidence_epoch ns act get_prices get_features start_date end_date q =
     (let df_prices = get_prices start_date end_date;
          df_features = get_features df_prices
      in bindE (get_thresholds df_features ns) (\<lambda>thresholds.
           add_evidence_days ns act df_prices df_features thresholds
             (enumerate 0 (df_index df_features)) CASH q))"

text \<open>The loop \<open>for date in df_features.index\<close> of \<open>test_policy\<close> (lines 278 to 291).\<close>

fun test_policy_days ::
  "nat \<Rightarrow> ('q \<Rightarrow> act_call \<Rightarrow> int \<times> 'q) \<Rightarrow> DataFrame \<Rightarrow> real list list \<Rightarrow>
   date list \<Rightarrow> int \<Rightarrow> 'q \<Rightarrow> pyerr + (day_log list \<times> int \<times> 'q)" where
  "test_policy_days ns act df_features thresholds [] position q = Inr ([], position, q)"
| "test_policy_days ns act df_features thresholds (d # rest) position q =
     bindE (loc_row df_features d) (\<lambda>row.
     bindE (discretize ns row (position + 1) thresholds) (\<lambda>state.
       let call = \<lparr>call_state = state, call_reward = 0,
                   call_update = False, call_done = False\<rparr>;
           (action, q') = act q call;
           new_pos = (if d = last (df_index df_features) then - position
                      else get_position position (action - 1))
       in bindE (test_policy_days ns act df_features thresholds rest
                   (position + new_pos) q') (\<lambda>(logs, p, qf).
            Inr (\<lparr>log_date = d, log_position = position, log_call = call,
                   log_action = action, log_order = new_pos,
                   log_position_after = position + new_pos\<rparr> # logs, p, qf))))"

definition test_policy ::
  "nat \<Rightarrow> ('q \<Rightarrow> act_call \<Rightarrow> int \<times> 'q) \<Rightarrow> (date \<Rightarrow> date \<Rightarrow> series) \<Rightarrow> (series \<Rightarrow> DataFrame) \<Rightarrow>
   date \<Rightarrow> date \<Rightarrow> 'q \<Rightarrow> pyerr + (day_log list \<times> int \<times> 'q)" where
  "test_policy ns act get_prices get_features start_date end_date q =
     (let df_prices = get_prices start_date end_date;
          df_features = get_features df_prices
      in bindE (get_thresholds df_features ns) (\<lambda>thresholds.
           test_policy_days ns act df_features thresholds (df_index df_features) CASH q))"

section \<open>marketsim.py: compute_portvals_single_symbol\<close>

text \<open>
  The order frame \<open>df_orders\<close>: one entry per row, the date of the index and the value of
  the column \<open>Shares\<close>; several rows may carry the same date.
\<close>

type_synonym orders = "(date \<times> real) list"

text \<open>
  \<open>fillna(method="ffill")\<close>, \<open>fillna(method="bfill")\<close> and \<open>fillna(1.0)\<close> on the symbol's
  column; a missing price (NaN) is \<open>None\<close>.
\<close>

fun ffill :: "real option \<Rightarrow> real option list \<Rightarrow> real option list" where
  "ffill prev [] = []"
| "ffill prev (x # xs) =
     (case x of None \<Rightarrow> prev # ffill prev xs | Some v \<Rightarrow> Some v # ffill (Some v) xs)"

definition bfill :: "real option list \<Rightarrow> real option list" where
  "bfill xs = rev (ffill None (rev xs))"

definition fill_prices :: "real option list \<Rightarrow> real list" where
  "fill_prices xs = map (\<lambda>x. case x of None \<Rightarrow> 1 | Some v \<Rightarrow> v) (bfill (ffill None xs))"







text \<open>
  Modelled from the spec: \<open>get_data\<close> of module \<open>util\<close>, which is not part of the sources.
  The spec describes it as returning one row per calendar day of the requested range;
  \<open>quote d\<close> is the symbol's adjusted close on day \<open>d\<close>, if there is one.
\<close>

definition calendar_get_data ::
  "(date \<Rightarrow> real option) \<Rightarrow> date \<Rightarrow> date \<Rightarrow> (date \<times> real option) list" where
  "calendar_get_data quote start_date end_date =
     map (\<lambda>d. (d, quote d)) [start_date..<Suc end_date]"

section \<open>marketsim.py in binary64 arithmetic\<close>

text \<open>
  Whether the returned values depend on the order of the rows is a question about the
  floats themselves: the program keeps running sums in binary64, and such sums depend on
  the order of their terms.  \<open>f64 x\<close> is the binary64 number nearest to \<open>x\<close>, a tie going to
  the even significand: \<open>x\<close> is scaled to a significand of 53 bits, rounded, and scaled back.
  Overflow and subnormal numbers are outside this model; amounts of money are far from
  both.  A float is a \<open>real\<close> that \<open>f64\<close> leaves unchanged.
\<close>

definition round_half_even :: "real \<Rightarrow> int" where
  "round_half_even y =
     (let f = \<lfloor>y\<rfloor>; d = y - of_int f
      in if d < 1 / 2 then f
         else if d > 1 / 2 then f + 1
         else if even f then f else f + 1)"

definition f64 :: "real \<Rightarrow> real" where
  "f64 x =
     (if x = 0 then 0
      else let e = \<lfloor>log 2 \<bar>x\<bar>\<rfloor> - 52
           in of_int (round_half_even (x / 2 powr of_int e)) * 2 powr of_int e)"

text \<open>
  One pass of the loop \<open>for index, row in df_orders.iterrows()\<close> (lines 54 to 76) with
  every operation rounded as Python evaluates it: \<open>price * shares\<close>;
  \<open>commission + (impact * price) * abs(shares)\<close>; the share count plus the shares;
  \<open>(cash - traded_share_value) - transaction_cost\<close>.
\<close>

definition trade_step_f64 ::
  "date list \<Rightarrow> real list \<Rightarrow> real \<Rightarrow> real \<Rightarrow> date \<times> real \<Rightarrow>
   pyerr + (real \<times> real) list \<Rightarrow> pyerr + (real \<times> real) list" where
  "trade_step_f64 idx prices commission impact order acc =
     bindE acc (\<lambda>df_trades.
       case index_of (fst order) idx of
         None \<Rightarrow> Inl KeyError
       | Some j \<Rightarrow>
           let shares = snd order;
               traded_share_value = f64 (prices ! j * shares);
               transaction_cost =
                 f64 (commission + f64 (f64 (impact * (prices ! j)) * \<bar>shares\<bar>))
           in if shares > 0 then
                Inr (df_trades[j := (f64 (fst (df_trades ! j) + shares),
                                     f64 (f64 (snd (df_trades ! j) - traded_share_value)
                                          - transaction_cost))])
              else if shares < 0 then
                Inr (df_trades[j := (f64 (fst (df_trades ! j) + shares),
                                     f64 (f64 (snd (df_trades ! j) - traded_share_value)
                                          - transaction_cost))])
              else Inr df_trades)"

text \<open>The loop over the orders, starting from a frame of zeros.\<close>

definition build_trades_f64 ::
  "date list \<Rightarrow> real list \<Rightarrow> real \<Rightarrow> real \<Rightarrow> orders \<Rightarrow> pyerr + (real \<times> real) list" where
  "build_trades_f64 idx prices commission impact df_orders =
     fold (trade_step_f64 idx prices commission impact) df_orders
       (Inr (replicate (length idx) (0, 0)))"

text \<open>The holdings, each sum of the loop rounded.\<close>

fun holdings_from_f64 :: "real \<times> real \<Rightarrow> (real \<times> real) list \<Rightarrow> (real \<times> real) list" where
  "holdings_from_f64 prev [] = []"
| "holdings_from_f64 prev (t # ts) =
     (let h = (f64 (fst prev + fst t), f64 (snd prev + snd t)) in h # holdings_from_f64 h ts)"

definition build_holdings_f64 :: "real \<Rightarrow> (real \<times> real) list \<Rightarrow> (real \<times> real) list" where
  "build_holdings_f64 start_val df_trades =
     (case df_trades of
        [] \<Rightarrow> []
      | t # ts \<Rightarrow> (let h0 = (fst t, f64 (snd t + start_val)) in h0 # holdings_from_f64 h0 ts))"

text \<open>
  \<open>df_prices * df_holdings\<close> rounds each product, the cash column being multiplied by 1.0,
  and \<open>sum(axis=1)\<close> adds the two columns of a row.
\<close>

definition port_values_f64 :: "real list \<Rightarrow> (real \<times> real) list \<Rightarrow> real list" where
  "port_values_f64 prices df_holdings =
     map (\<lambda>(p, h). f64 (f64 (p * fst h) + f64 (1 * snd h))) (zip prices df_holdings)"

text \<open>The function with these loops; sorting and the price frame are as above.\<close>

definition compute_portvals_single_symbol_f64 ::
  "(date \<Rightarrow> date \<Rightarrow> (date \<times> real option) list) \<Rightarrow> orders \<Rightarrow> real \<Rightarrow> real \<Rightarrow> real \<Rightarrow>
   (pyerr + (date \<times> real) list) \<times> orders" where
  "compute_portvals_single_symbol_f64 get_data df_orders start_val commission impact =
     (let sorted_orders = sort_key fst df_orders
      in (if sorted_orders = [] then Inl ValueError
          else
            let start_date = Min (set (map fst sorted_orders));
                end_date = Max (set (map fst sorted_orders));
                df_prices = get_data start_date end_date;
                idx = map fst df_prices;
                prices = fill_prices (map snd df_prices)
            in bindE (build_trades_f64 idx prices commission impact sorted_orders) (\<lambda>df_trades.
                 Inr (zip idx (port_values_f64 prices (build_holdings_f64 start_val df_trades)))),
          sorted_orders))"

section \<open>The state encoding in the words of the specification\<close>

text \<open>
  The specification describes the state as the mixed-radix number with the position code
  as the most significant digit and, for feature \<open>i\<close>, the digit \<open>bin_i\<close>: the column, within
  feature \<open>i\<close>'s own row of thresholds, of the first threshold that is at least the
  feature's value.  These two definitions follow that description, not the code; they are
  compared with \<open>discretize\<close> below.
\<close>

definition spec_bin :: "real list \<Rightarrow> real \<Rightarrow> nat" where
  "spec_bin row v = length (takeWhile (\<lambda>t. \<not> t \<ge> v) row)"

definition spec_state :: "nat \<Rightarrow> real list \<Rightarrow> int \<Rightarrow> real list list \<Rightarrow> int" where
  "spec_state ns feats pos thresholds =
     pos * int ns ^ length feats +
     (\<Sum>i\<leftarrow>[0..<length feats]. int (spec_bin (thresholds ! i) (feats ! i)) * int ns ^ i)"

section \<open>Sample data\<close>

text \<open>
  A run needs an agent, prices and features.  The agent of the examples always answers
  action 2 (the signal LONG) and has no state.  The quotes cover twenty-eight days: a
  training period, days 101 to 114, and a test period, days 115 to 128.
  \<open>sample_get_prices\<close> returns the quotes of the requested range.
\<close>

definition always_long :: "unit \<Rightarrow> act_call \<Rightarrow> int \<times> unit" where
  "always_long q call = (2, q)"

definition sample_quotes :: series where
  "sample_quotes =
     [(101, 100), (102, 100), (103, 100), (104, 100), (105, 100), (106, 100), (107, 100),
      (108, 100), (109, 100), (110, 100), (111, 110), (112, 120), (113, 130), (114, 140),
      (115, 100), (116, 100), (117, 100), (118, 100), (119, 100), (120, 100), (121, 100),
      (122, 100), (123, 100), (124, 100), (125, 130), (126, 110), (127, 110), (128, 110)]"

definition sample_get_prices :: "date \<Rightarrow> date \<Rightarrow> series" where
  "sample_get_prices start_date end_date =
     filter (\<lambda>(d, p). start_date \<le> d \<and> d \<le> end_date) sample_quotes"

text \<open>
  Modelled from the spec: the indicator functions of module \<open>indicators\<close>, which
  \<open>get_features\<close> calls and which are not part of the sources.  The specification gives
  the momentum as \<open>price[t] / price[t-w] - 1\<close> and has the rows without a full window
  dropped; with the window of ten days of the class, the first ten rows go.  This
  stand-in for \<open>get_features\<close> has the momentum as its only column.
\<close>

definition momentum_features :: "series \<Rightarrow> DataFrame" where
  "momentum_features prices =
     \<lparr>df_index = drop 10 (map fst prices),
      df_columns = [map (\<lambda>(old, new). new / old - 1)
                      (zip (map snd prices) (drop 10 (map snd prices)))]\<rparr>"

section \<open>Properties of has_converged\<close>

lemma remdups_all_equal:
  assumes "xs \<noteq> []" and "\<forall>x \<in> set xs. \<forall>y \<in> set xs. x = y"
  shows "length (remdups xs) = 1"
proof -
  from assms have "set xs = {hd xs}"
    by (cases xs) auto
  then have "card (set xs) = 1" by simp
  then show ?thesis by (simp add: length_remdups_card_conv)
qed

lemma has_converged_zero_patience:
  assumes "cr \<noteq> []"
  shows "has_converged cr 0 = Inr True"
proof -
  from assms obtain x xs where cr: "cr = x # xs" by (cases cr) auto
  have "Max (set cr) \<in> set cr" using assms by (intro Max_in) auto
  then show ?thesis
    unfolding has_converged_def cr by (simp add: Let_def)
qed

text \<open>
  Claim C9, as the code has it.  \<open>has_converged\<close> returns False whenever the list of
  cumulative returns has fewer than \<open>patience\<close> entries.  It returns True whenever the list
  is not empty, has at least \<open>patience\<close> entries, and its last \<open>patience\<close> entries are all
  identical.  (The last \<open>p\<close> entries of \<open>cr\<close> are \<open>drop (length cr - p) cr\<close>.)
\<close>

theorem has_converged_spec:
  "(length cr < p \<longrightarrow> has_converged cr p = Inr False) \<and>
   (cr \<noteq> [] \<and> p \<le> length cr \<and>
    (\<forall>x \<in> set (drop (length cr - p) cr). \<forall>y \<in> set (drop (length cr - p) cr). x = y)
      \<longrightarrow> has_converged cr p = Inr True)"
proof (intro conjI impI)
  assume "length cr < p"
  then show "has_converged cr p = Inr False" by (simp add: has_converged_def)
next
  assume a: "cr \<noteq> [] \<and> p \<le> length cr \<and>
    (\<forall>x \<in> set (drop (length cr - p) cr). \<forall>y \<in> set (drop (length cr - p) cr). x = y)"
  show "has_converged cr p = Inr True"
  proof (cases "p = 0")
    case True
    with a show ?thesis by (simp add: has_converged_zero_patience)
  next
    case False
    with a have "length cr - p < length cr" by (cases cr) auto
    then have "drop (length cr - p) cr \<noteq> []" by simp
    with a have "length (remdups (drop (length cr - p) cr)) = 1"
      by (intro remdups_all_equal) auto
    with a False show ?thesis by (simp add: has_converged_def)
  qed
qed

text \<open>
  The theorem at two inputs: one return with \<open>patience = 2\<close> is too few, and the last two
  of three returns agree.
\<close>

theorem has_converged_spec_witness:
  "has_converged [1] 2 = Inr False \<and> has_converged [1, 2, 2] 2 = Inr True"
  using has_converged_spec [of "[1]" 2] has_converged_spec [of "[1, 2, 2]" 2]
  by simp

text \<open>
  Without the condition that the list is not empty the second half of C9 fails: with
  \<open>patience = 0\<close> and no returns yet, the list has at least \<open>patience\<close> entries and its last
  zero entries are trivially identical, but \<open>max(cum_returns)\<close> raises ValueError.
\<close>

theorem has_converged_empty_counterexample:
  "\<not> length ([] :: real list) < 0 \<and> drop (length ([] :: real list) - 0) [] = ([] :: real list) \<and>
   has_converged [] 0 = Inl ValueError"
  by (simp add: has_converged_def)

section \<open>Properties of discretize\<close>

lemma where_first_col_error: "where_first_col th v = Inl e \<Longrightarrow> e = IndexError"
  by (induction th) (auto split: option.splits)

lemma discretize_loop_error:
  "discretize_loop ns feats th js st = Inl e \<Longrightarrow> e = IndexError"
proof (induction js arbitrary: st)
  case Nil
  then show ?case by simp
next
  case (Cons j js)
  then show ?case
    by (auto simp: bindE_def iloc_def first_ge_def split: sum.splits if_splits list.splits
        dest: where_first_col_error)
qed

lemma first_ge_above: "\<forall>t \<in> set row. t < v \<Longrightarrow> first_ge row v = Inl IndexError"
proof -
  assume "\<forall>t \<in> set row. t < v"
  then have "filter (\<lambda>t. t \<ge> v) row = []" by (auto simp: filter_empty_conv)
  then show ?thesis by (simp add: first_ge_def)
qed

lemma discretize_loop_fails:
  assumes "i \<in> set js" and "i < length th" and "\<forall>t \<in> set (th ! i). t < feats ! i"
  shows "\<exists>e. discretize_loop ns feats th js st = Inl e"
  using assms(1)
proof (induction js arbitrary: st)
  case Nil
  then show ?case by simp
next
  case (Cons j js)
  show ?case
  proof (cases "j = i")
    case True
    with assms(2,3) show ?thesis
      by (simp add: bindE_def iloc_def first_ge_above)
  next
    case False
    with Cons.prems have "i \<in> set js" by simp
    from Cons.IH [OF this] show ?thesis
      by (auto simp: bindE_def split: sum.splits)
  qed
qed

text \<open>
  Claim C2, at an input where the code and the specification part.  Both rows of the
  table are sorted ascending and cover their feature's value, but the value 2 of the
  second feature's first threshold also stands in the first feature's row, in column 1.
  \<open>np.where\<close> searches the whole table, finds that cell first, and the second digit becomes
  1 instead of 0: the code returns state 6 where the encoding of the specification is 4.
\<close>

theorem discretize_foreign_row:
  "sorted [1, 2 :: real] \<and> sorted [2, 3 :: real] \<and>
   discretize 2 [1, 2] 1 [[1, 2], [2, 3]] = Inr 6 \<and>
   spec_state 2 [1, 2] 1 [[1, 2], [2, 3]] = 4"
  by (simp add: discretize_def bindE_def iloc_def first_ge_def spec_state_def spec_bin_def upt_rec)

text \<open>
  Claim C7, as the code has it.  When some feature value exceeds every threshold of its
  feature's row, \<open>discretize\<close> raises IndexError: the selection of thresholds at least the
  value is empty, and nothing clamps the value into the top bin.
\<close>

theorem discretize_above_raises:
  assumes "i < length feats" and "i < length th" and "\<forall>t \<in> set (th ! i). t < feats ! i"
  shows "discretize ns feats pos th = Inl IndexError"
proof -
  from assms(1) have "i \<in> set [0..<length feats]" by simp
  from discretize_loop_fails [OF this assms(2,3)]
  obtain e where e: "discretize ns feats pos th = Inl e"
    unfolding discretize_def by blast
  then have "e = IndexError" unfolding discretize_def by (rule discretize_loop_error)
  with e show ?thesis by simp
qed

theorem discretize_above_raises_witness:
  "discretize 10 [5] 1 [[1, 2]] = Inl IndexError"
  using discretize_above_raises [of 0 "[5]" "[[1, 2]]" 10 1] by simp

text \<open>
  C7 as stated fails: with two steps, thresholds 1 and 2 and the value 5, clamping would
  give bin 1 and the state \<open>1 * 2 + 1 = 3\<close>; the code raises instead.
\<close>

theorem discretize_no_clamp_counterexample:
  "(1 :: real) < 5 \<and> (2 :: real) < 5 \<and> discretize 2 [5] 1 [[1, 2]] = Inl IndexError \<and>
   discretize 2 [5] 1 [[1, 2]] \<noteq> Inr (1 * 2 ^ 1 + (2 - 1) * 2 ^ 0)"
  by (simp add: discretize_def bindE_def iloc_def first_ge_def)

section \<open>Properties of get_thresholds\<close>

text \<open>
  Claim C5, at an input where the code stops.  Fifteen samples and the default
  \<open>num_steps = 10\<close>: \<open>round(15 / 10)\<close> is 2, so the thresholds of steps 0 to 8 are read at
  positions 2, 4, ..., 18 of a sorted column of length 15, and the read at position 16
  raises IndexError.  No table of thresholds is returned.
\<close>

theorem get_thresholds_small_sample:
  "py_round_div 15 10 = 2 \<and>
   get_thresholds \<lparr>df_index = [1, 2, 3, 4, 5, 6, 7, 8, 9, 10, 11, 12, 13, 14, 15],
                   df_columns = [[1, 2, 3, 4, 5, 6, 7, 8, 9, 10, 11, 12, 13, 14, 15]]\<rparr> 10
   = Inl IndexError"
  by (simp add: get_thresholds_def py_round_div_def bindE_def iloc_def iloc_last_def upt_rec
      sort_key_def)

section \<open>Properties of the daily walks\<close>

text \<open>What a run of the loop body on the first remaining date yields.\<close>

lemma add_evidence_days_Cons:
  assumes "add_evidence_days ns act P F th ((day, d) # rest) pos q = Inr (logs, p', qf)"
  shows "\<exists>l q1 logs'.
    logs = l # logs' \<and> log_date l = d \<and> log_position l = pos \<and>
    log_order l = (if d = last (df_index F) then - pos
                   else get_position pos (log_action l - 1)) \<and>
    log_position_after l = pos + log_order l \<and>
    act q (log_call l) = (log_action l, q1) \<and>
    (\<exists>row. loc_row F d = Inr row \<and>
       discretize ns row (pos + 1) th = Inr (call_state (log_call l))) \<and>
    (d = hd (df_index F) \<longrightarrow>
       call_reward (log_call l) = 0 \<and> \<not> call_update (log_call l)) \<and>
    (d \<noteq> hd (df_index F) \<longrightarrow>
       (\<exists>prev_price curr_price.
         iloc_int (map snd P) (int day - 1) = Inr prev_price \<and>
         loc_price P d = Inr curr_price \<and>
         call_reward (log_call l) = get_daily_reward prev_price curr_price pos \<and>
         call_update (log_call l))) \<and>
    add_evidence_days ns act P F th rest (log_position_after l) q1 = Inr (logs', p', qf)"
  using assms
  by (simp add: bindE_def Let_def split: sum.splits prod.splits if_splits) force+

lemma test_policy_days_Cons:
  assumes "test_policy_days ns act F th (d # rest) pos q = Inr (logs, p', qf)"
  shows "\<exists>l q1 logs'.
    logs = l # logs' \<and> log_date l = d \<and> log_position l = pos \<and>
    log_order l = (if d = last (df_index F) then - pos
                   else get_position pos (log_action l - 1)) \<and>
    log_position_after l = pos + log_order l \<and>
    act q (log_call l) = (log_action l, q1) \<and>
    (\<exists>row. loc_row F d = Inr row \<and>
       discretize ns row (pos + 1) th = Inr (call_state (log_call l))) \<and>
    call_reward (log_call l) = 0 \<and> \<not> call_update (log_call l) \<and>
    test_policy_days ns act F th rest (log_position_after l) q1 = Inr (logs', p', qf)"
  using assms
  by (auto simp: bindE_def Let_def split: sum.splits prod.splits if_splits)

text \<open>The order of \<open>get_position\<close> keeps a position within SHORT, CASH, LONG.\<close>

lemma get_position_range:
  assumes "- 1 \<le> pos" and "pos \<le> 1"
  shows "- 1 \<le> pos + get_position pos s" and "pos + get_position pos s \<le> 1"
    and "\<bar>get_position pos s\<bar> \<le> 1"
  using assms by (auto simp: get_position_def LONG_def SHORT_def CASH_def)

lemma add_evidence_days_dates:
  "add_evidence_days ns act P F th ds pos q = Inr (logs, p', qf) \<Longrightarrow>
   map log_date logs = map snd ds"
proof (induction ds arbitrary: pos q logs)
  case Nil
  then show ?case by simp
next
  case (Cons a ds)
  obtain day d where a: "a = (day, d)" by (cases a)
  from add_evidence_days_Cons [OF Cons.prems [unfolded a]]
  obtain l logs' q1 where run: "add_evidence_days ns act P F th ds (log_position_after l) q1
      = Inr (logs', p', qf)"
    and logs: "logs = l # logs'" and l: "log_date l = d"
    by blast
  from Cons.IH [OF run] logs l a show ?case by simp
qed

lemma add_evidence_days_chain:
  "add_evidence_days ns act P F th ds pos q = Inr (logs, p', qf) \<Longrightarrow>
   map log_position logs = butlast (pos # map log_position_after logs) \<and>
   p' = last (pos # map log_position_after logs)"
proof (induction ds arbitrary: pos q logs)
  case Nil
  then show ?case by simp
next
  case (Cons a ds)
  obtain day d where a: "a = (day, d)" by (cases a)
  from add_evidence_days_Cons [OF Cons.prems [unfolded a]]
  obtain l logs' q1 where run: "add_evidence_days ns act P F th ds (log_position_after l) q1
      = Inr (logs', p', qf)"
    and logs: "logs = l # logs'" and l: "log_position l = pos"
    by blast
  from Cons.IH [OF run] logs l show ?case by simp
qed

lemma add_evidence_days_local:
  assumes "add_evidence_days ns act P F th ds pos q = Inr (logs, p', qf)"
    and "- 1 \<le> pos" and "pos \<le> 1"
  shows "\<forall>l \<in> set logs.
     - 1 \<le> log_position l \<and> log_position l \<le> 1 \<and>
     log_position_after l = log_position l + log_order l \<and>
     log_order l = (if log_date l = last (df_index F) then - log_position l
                    else get_position (log_position l) (log_action l - 1))"
  using assms
proof (induction ds arbitrary: pos q logs)
  case Nil
  then show ?case by simp
next
  case (Cons a ds)
  obtain day d where a: "a = (day, d)" by (cases a)
  from add_evidence_days_Cons [OF Cons.prems(1) [unfolded a]]
  obtain l logs' q1 where run: "add_evidence_days ns act P F th ds (log_position_after l) q1
      = Inr (logs', p', qf)"
    and logs: "logs = l # logs'" and l: "log_position l = pos" "log_date l = d"
      "log_order l = (if d = last (df_index F) then - pos
                      else get_position pos (log_action l - 1))"
      "log_position_after l = pos + log_order l"
    by blast
  have "- 1 \<le> log_position_after l \<and> log_position_after l \<le> 1"
    using l(3,4) get_position_range(1,2) [OF Cons.prems(2,3)] Cons.prems(2,3) by auto
  with Cons.IH [OF run] have "\<forall>l \<in> set logs'.
     - 1 \<le> log_position l \<and> log_position l \<le> 1 \<and>
     log_position_after l = log_position l + log_order l \<and>
     log_order l = (if log_date l = last (df_index F) then - log_position l
                    else get_position (log_position l) (log_action l - 1))" by simp
  with l logs Cons.prems(2,3) show ?case by simp
qed

lemma test_policy_days_dates:
  "test_policy_days ns act F th ds pos q = Inr (logs, p', qf) \<Longrightarrow>
   map log_date logs = ds"
proof (induction ds arbitrary: pos q logs)
  case Nil
  then show ?case by simp
next
  case (Cons d ds)
  from test_policy_days_Cons [OF Cons.prems]
  obtain l logs' q1 where run: "test_policy_days ns act F th ds (log_position_after l) q1
      = Inr (logs', p', qf)"
    and logs: "logs = l # logs'" and l: "log_date l = d"
    by blast
  from Cons.IH [OF run] logs l show ?case by simp
qed

lemma test_policy_days_chain:
  "test_policy_days ns act F th ds pos q = Inr (logs, p', qf) \<Longrightarrow>
   map log_position logs = butlast (pos # map log_position_after logs) \<and>
   p' = last (pos # map log_position_after logs)"
proof (induction ds arbitrary: pos q logs)
  case Nil
  then show ?case by simp
next
  case (Cons d ds)
  from test_policy_days_Cons [OF Cons.prems]
  obtain l logs' q1 where run: "test_policy_days ns act F th ds (log_position_after l) q1
      = Inr (logs', p', qf)"
    and logs: "logs = l # logs'" and l: "log_position l = pos"
    by blast
  from Cons.IH [OF run] logs l show ?case by simp
qed

lemma test_policy_days_local:
  assumes "test_policy_days ns act F th ds pos q = Inr (logs, p', qf)"
    and "- 1 \<le> pos" and "pos \<le> 1"
  shows "\<forall>l \<in> set logs.
     - 1 \<le> log_position l \<and> log_position l \<le> 1 \<and>
     log_position_after l = log_position l + log_order l \<and>
     log_order l = (if log_date l = last (df_index F) then - log_position l
                    else get_position (log_position l) (log_action l - 1))"
  using assms
proof (induction ds arbitrary: pos q logs)
  case Nil
  then show ?case by simp
next
  case (Cons d ds)
  from test_policy_days_Cons [OF Cons.prems(1)]
  obtain l logs' q1 where run: "test_policy_days ns act F th ds (log_position_after l) q1
      = Inr (logs', p', qf)"
    and logs: "logs = l # logs'" and l: "log_position l = pos" "log_date l = d"
      "log_order l = (if d = last (df_index F) then - pos
                      else get_position pos (log_action l - 1))"
      "log_position_after l = pos + log_order l"
    by blast
  have "- 1 \<le> log_position_after l \<and> log_position_after l \<le> 1"
    using l(3,4) get_position_range(1,2) [OF Cons.prems(2,3)] Cons.prems(2,3) by auto
  with Cons.IH [OF run] have "\<forall>l \<in> set logs'.
     - 1 \<le> log_position l \<and> log_position l \<le> 1 \<and>
     log_position_after l = log_position l + log_order l \<and>
     log_order l = (if log_date l = last (df_index F) then - log_position l
                    else get_position (log_position l) (log_action l - 1))" by simp
  with l logs Cons.prems(2,3) show ?case by simp
qed



lemma walk_range_abs:
  assumes "- 1 \<le> (a::int)" "a \<le> 1"
  shows "a \<in> {SHORT, CASH, LONG}"
  using assms by (auto simp: LONG_def SHORT_def CASH_def)

lemma get_position_table:
  assumes "- 1 \<le> pos" and "pos \<le> 1"
  shows "get_position pos s =
     (if pos \<noteq> LONG \<and> s = LONG then LONG
      else if pos \<noteq> SHORT \<and> s = SHORT then SHORT else CASH)"
  using assms by (auto simp: get_position_def LONG_def SHORT_def CASH_def)

text \<open>
  The facts about a finished walk of either kind: the log has the dates of the feature
  index, each day starts from the position the day before ended with (the first from
  CASH), and every day's order is the one the code computes from the position of that
  morning.
\<close>

lemma walk_unfold:
  assumes "add_evidence_epoch ns act gp gf s e q = Inr (logs, p', qf) \<or>
           test_policy ns act gp gf s e q = Inr (logs, p', qf)"
  shows "\<exists>th. get_thresholds (gf (gp s e)) ns = Inr th \<and>
     (add_evidence_days ns act (gp s e) (gf (gp s e)) th
        (enumerate 0 (df_index (gf (gp s e)))) CASH q = Inr (logs, p', qf) \<or>
      test_policy_days ns act (gf (gp s e)) th (df_index (gf (gp s e))) CASH q
        = Inr (logs, p', qf))"
  using assms
  by (auto simp: add_evidence_epoch_def test_policy_def bindE_def Let_def split: sum.splits)

lemma walk_facts:
  assumes "add_evidence_epoch ns act gp gf s e q = Inr (logs, p', qf) \<or>
           test_policy ns act gp gf s e q = Inr (logs, p', qf)"
  shows "map log_date logs = df_index (gf (gp s e))"
    and "map log_position logs = butlast (CASH # map log_position_after logs)"
    and "p' = last (CASH # map log_position_after logs)"
    and "\<forall>l \<in> set logs.
     - 1 \<le> log_position l \<and> log_position l \<le> 1 \<and>
     log_position_after l = log_position l + log_order l \<and>
     log_order l = (if log_date l = last (df_index (gf (gp s e))) then - log_position l
                    else get_position (log_position l) (log_action l - 1))"
proof -
  from walk_unfold [OF assms] obtain th where
    run: "add_evidence_days ns act (gp s e) (gf (gp s e)) th
        (enumerate 0 (df_index (gf (gp s e)))) CASH q = Inr (logs, p', qf) \<or>
      test_policy_days ns act (gf (gp s e)) th (df_index (gf (gp s e))) CASH q
        = Inr (logs, p', qf)" by blast
  from run show "map log_date logs = df_index (gf (gp s e))"
    by (auto dest: add_evidence_days_dates test_policy_days_dates)
  from run show "map log_position logs = butlast (CASH # map log_position_after logs)"
    by (auto dest: add_evidence_days_chain test_policy_days_chain)
  from run show "p' = last (CASH # map log_position_after logs)"
    by (auto dest: add_evidence_days_chain test_policy_days_chain)
  have c: "- 1 \<le> CASH" "CASH \<le> 1" by (simp_all add: CASH_def)
  from run show "\<forall>l \<in> set logs.
     - 1 \<le> log_position l \<and> log_position l \<le> 1 \<and>
     log_position_after l = log_position l + log_order l \<and>
     log_order l = (if log_date l = last (df_index (gf (gp s e))) then - log_position l
                    else get_position (log_position l) (log_action l - 1))"
  proof
    assume "add_evidence_days ns act (gp s e) (gf (gp s e)) th
        (enumerate 0 (df_index (gf (gp s e)))) CASH q = Inr (logs, p', qf)"
    from add_evidence_days_local [OF this c] show ?thesis .
  next
    assume "test_policy_days ns act (gf (gp s e)) th (df_index (gf (gp s e))) CASH q
        = Inr (logs, p', qf)"
    from test_policy_days_local [OF this c] show ?thesis .
  qed
qed

text \<open>
  Claim C3, as the code has it.  On every day of a training or testing walk except the
  last, the order recorded for that day follows the table: LONG (+1) when the old position
  is not LONG and the signal is LONG, SHORT (-1) when the old position is not SHORT and the
  signal is SHORT, CASH (0) in every other case; and the position after the day is the old
  position plus that order.  The signal is the agent's action minus one.
\<close>

theorem walk_orders_follow_table:
  assumes "add_evidence_epoch ns act gp gf s e q = Inr (logs, p', qf) \<or>
           test_policy ns act gp gf s e q = Inr (logs, p', qf)"
  shows "\<forall>l \<in> set logs. log_date l \<noteq> last (df_index (gf (gp s e))) \<longrightarrow>
     log_order l =
       (if log_position l \<noteq> LONG \<and> log_action l - 1 = LONG then LONG
        else if log_position l \<noteq> SHORT \<and> log_action l - 1 = SHORT then SHORT
        else CASH) \<and>
     log_position_after l = log_position l + log_order l"
proof (intro ballI impI)
  fix l assume l: "l \<in> set logs" and nl: "log_date l \<noteq> last (df_index (gf (gp s e)))"
  from walk_facts(4) [OF assms] l nl
  have r: "- 1 \<le> log_position l" "log_position l \<le> 1"
    and a: "log_position_after l = log_position l + log_order l"
    and o: "log_order l = get_position (log_position l) (log_action l - 1)"
    by auto
  from o get_position_table [OF r] a
  show "log_order l =
       (if log_position l \<noteq> LONG \<and> log_action l - 1 = LONG then LONG
        else if log_position l \<noteq> SHORT \<and> log_action l - 1 = SHORT then SHORT
        else CASH) \<and>
     log_position_after l = log_position l + log_order l" by simp
qed

text \<open>
  Claim C8.  In every finished epoch of training and every finished testing walk the
  running position, before and after each day's order, is one of SHORT, CASH, LONG; on
  every day but the last date it changes by at most one unit; each day starts from the
  position the day before ended with, the first day from CASH; and after the order of
  the last simulated date the position is CASH.
\<close>

theorem walk_positions:
  assumes "add_evidence_epoch ns act gp gf s e q = Inr (logs, p', qf) \<or>
           test_policy ns act gp gf s e q = Inr (logs, p', qf)"
  shows "(\<forall>l \<in> set logs. log_position l \<in> {SHORT, CASH, LONG} \<and>
            log_position_after l \<in> {SHORT, CASH, LONG}) \<and>
     (\<forall>l \<in> set logs. log_date l \<noteq> last (df_index (gf (gp s e))) \<longrightarrow>
            \<bar>log_position_after l - log_position l\<bar> \<le> 1) \<and>
     map log_date logs = df_index (gf (gp s e)) \<and>
     map log_position logs = butlast (CASH # map log_position_after logs) \<and>
     (logs \<noteq> [] \<longrightarrow> log_position_after (last logs) = CASH) \<and>
     p' = CASH"
proof -
  note f = walk_facts [OF assms]
  have loc: "- 1 \<le> log_position l \<and> log_position l \<le> 1 \<and>
      - 1 \<le> log_position_after l \<and> log_position_after l \<le> 1 \<and>
      (log_date l \<noteq> last (df_index (gf (gp s e))) \<longrightarrow>
         \<bar>log_position_after l - log_position l\<bar> \<le> 1) \<and>
      (log_date l = last (df_index (gf (gp s e))) \<longrightarrow> log_position_after l = 0)"
    if "l \<in> set logs" for l
  proof -
    from f(4) that
    have r: "- 1 \<le> log_position l" "log_position l \<le> 1"
      and a: "log_position_after l = log_position l + log_order l"
      and o: "log_order l = (if log_date l = last (df_index (gf (gp s e)))
                then - log_position l
                else get_position (log_position l) (log_action l - 1))"
      by auto
    from get_position_range [OF r, of "log_action l - 1"] r a o show ?thesis
      by (auto split: if_splits)
  qed
  have last0: "log_position_after (last logs) = CASH" if ne: "logs \<noteq> []"
  proof -
    from ne have "log_date (last logs) = last (map log_date logs)" by (simp add: last_map)
    with f(1) have "log_date (last logs) = last (df_index (gf (gp s e)))" by simp
    moreover from ne have "last logs \<in> set logs" by simp
    ultimately show ?thesis using loc by (simp add: CASH_def)
  qed
  have "p' = CASH"
  proof (cases "logs = []")
    case True
    with f(3) show ?thesis by simp
  next
    case False
    with f(3) have "p' = log_position_after (last logs)" by (simp add: last_map)
    with last0 [OF False] show ?thesis by simp
  qed
  moreover have "\<forall>l \<in> set logs. log_position l \<in> {SHORT, CASH, LONG} \<and>
            log_position_after l \<in> {SHORT, CASH, LONG}"
  proof (intro ballI conjI)
    fix l assume l: "l \<in> set logs"
    from loc [OF l] show "log_position l \<in> {SHORT, CASH, LONG}"
      by (intro walk_range_abs) simp_all
    from loc [OF l] show "log_position_after l \<in> {SHORT, CASH, LONG}"
      by (intro walk_range_abs) simp_all
  qed
  moreover have "\<forall>l \<in> set logs. log_date l \<noteq> last (df_index (gf (gp s e))) \<longrightarrow>
            \<bar>log_position_after l - log_position l\<bar> \<le> 1"
    using loc by blast
  ultimately show ?thesis using last0 f(1,2) by blast
qed

text \<open>Each state put to the agent in a test walk is the day's row, discretized.\<close>

lemma test_policy_days_states:
  "test_policy_days ns act F th ds pos q = Inr (logs, p', qf) \<Longrightarrow>
   \<forall>l \<in> set logs. \<exists>row. loc_row F (log_date l) = Inr row \<and>
      discretize ns row (log_position l + 1) th = Inr (call_state (log_call l))"
proof (induction ds arbitrary: pos q logs)
  case Nil
  then show ?case by simp
next
  case (Cons d ds)
  from test_policy_days_Cons [OF Cons.prems]
  obtain l logs' q1 where run: "test_policy_days ns act F th ds (log_position_after l) q1
      = Inr (logs', p', qf)"
    and logs: "logs = l # logs'" and l: "log_date l = d" "log_position l = pos"
      "\<exists>row. loc_row F d = Inr row \<and>
         discretize ns row (pos + 1) th = Inr (call_state (log_call l))"
    by blast
  from Cons.IH [OF run] logs l show ?case by simp
qed

text \<open>
  Claim C6, as the code has it.  \<open>test_policy\<close> computes its threshold table once per call
  from the features of the period it is called for, the test period: every state put to
  the agent is the day's feature row discretized against
  \<open>get_thresholds\<close> of that very frame.  The learner keeps no thresholds from training.
\<close>

theorem test_policy_thresholds:
  assumes "test_policy ns act gp gf s e q = Inr (logs, p', qf)"
  shows "\<exists>th. get_thresholds (gf (gp s e)) ns = Inr th \<and>
     (\<forall>l \<in> set logs. \<exists>row. loc_row (gf (gp s e)) (log_date l) = Inr row \<and>
         discretize ns row (log_position l + 1) th = Inr (call_state (log_call l)))"
proof -
  from assms obtain th where th: "get_thresholds (gf (gp s e)) ns = Inr th"
    and run: "test_policy_days ns act (gf (gp s e)) th (df_index (gf (gp s e))) CASH q
        = Inr (logs, p', qf)"
    by (auto simp: test_policy_def bindE_def Let_def split: sum.splits)
  from test_policy_days_states [OF run] th show ?thesis by blast
qed

subsection \<open>In-sample rows always find a bin\<close>

lemma sorted_le_last:
  "sorted xs \<Longrightarrow> x \<in> set xs \<Longrightarrow> x \<le> last xs"
proof (induction xs)
  case Nil
  then show ?case by simp
next
  case (Cons y ys)
  show ?case
  proof (cases "ys = []")
    case True
    with Cons.prems show ?thesis by simp
  next
    case False
    then have l: "last ys \<in> set ys" by simp
    from Cons.prems have s: "sorted ys" and y: "\<forall>z \<in> set ys. y \<le> z" by simp_all
    show ?thesis
    proof (cases "x = y")
      case True
      with y l False show ?thesis by simp
    next
      case ne: False
      with Cons.prems have "x \<in> set ys" by simp
      from Cons.IH [OF s this] False show ?thesis by simp
    qed
  qed
qed

lemma thres_row_last:
  assumes "thres_row ss ns sorted_col steps = Inr r" and "ns - 1 \<in> set steps"
  shows "sorted_col \<noteq> [] \<and> last sorted_col \<in> set r"
  using assms
proof (induction steps arbitrary: r)
  case Nil
  then show ?case by simp
next
  case (Cons step steps)
  from Cons.prems(1) obtain t ts where
    t: "(if step < ns - 1 then iloc sorted_col ((step + 1) * ss) else iloc_last sorted_col) = Inr t"
    and ts: "thres_row ss ns sorted_col steps = Inr ts" and r: "r = t # ts"
    by (auto simp: bindE_def split: sum.splits)
  show ?case
  proof (cases "step = ns - 1")
    case True
    with t have "iloc_last sorted_col = Inr t" by simp
    then have "sorted_col \<noteq> [] \<and> t = last sorted_col"
      by (cases sorted_col) (auto simp: iloc_last_def)
    with r show ?thesis by simp
  next
    case False
    with Cons.prems(2) have "ns - 1 \<in> set steps" by simp
    from Cons.IH [OF ts this] r show ?thesis by simp
  qed
qed

lemma thres_table_rows:
  "thres_table ss ns cols = Inr th \<Longrightarrow>
   length th = length cols \<and>
   (\<forall>i < length cols. thres_row ss ns (sort (cols ! i)) [0..<ns] = Inr (th ! i))"
proof (induction cols arbitrary: th)
  case Nil
  then show ?case by simp
next
  case (Cons c cols)
  from Cons.prems obtain r rs where
    r: "thres_row ss ns (sort c) [0..<ns] = Inr r"
    and rs: "thres_table ss ns cols = Inr rs" and th: "th = r # rs"
    by (auto simp: bindE_def split: sum.splits)
  from Cons.IH [OF rs] r th show ?case
    by (auto simp: nth_Cons split: nat.splits)
qed

lemma get_thresholds_cover:
  assumes "get_thresholds F ns = Inr th"
  shows "length th = length (df_columns F)"
    and "\<forall>i < length (df_columns F). \<forall>v \<in> set (df_columns F ! i).
           \<exists>t \<in> set (th ! i). v \<le> t"
proof -
  from assms have ns: "0 < ns"
    and tt: "thres_table (py_round_div (length (df_index F)) ns) ns (df_columns F) = Inr th"
    by (auto simp: get_thresholds_def Let_def split: if_splits)
  from thres_table_rows [OF tt] show "length th = length (df_columns F)" by simp
  show "\<forall>i < length (df_columns F). \<forall>v \<in> set (df_columns F ! i).
           \<exists>t \<in> set (th ! i). v \<le> t"
  proof (intro allI impI ballI)
    fix i v assume i: "i < length (df_columns F)" and v: "v \<in> set (df_columns F ! i)"
    from thres_table_rows [OF tt] i
    have row: "thres_row (py_round_div (length (df_index F)) ns) ns
        (sort (df_columns F ! i)) [0..<ns] = Inr (th ! i)" by simp
    from ns have "ns - 1 \<in> set [0..<ns]" by simp
    from thres_row_last [OF row this]
    have l: "last (sort (df_columns F ! i)) \<in> set (th ! i)" by simp
    from v have "v \<in> set (sort (df_columns F ! i))" by simp
    then have "v \<le> last (sort (df_columns F ! i))"
      by (intro sorted_le_last) simp_all
    with l show "\<exists>t \<in> set (th ! i). v \<le> t" by blast
  qed
qed

lemma first_ge_finds:
  assumes "\<exists>t \<in> set row. v \<le> t"
  shows "\<exists>t \<in> set row. first_ge row v = Inr t"
proof -
  from assms have "filter (\<lambda>t. t \<ge> v) row \<noteq> []" by (auto simp: filter_empty_conv)
  then obtain t ts where f: "filter (\<lambda>t. t \<ge> v) row = t # ts"
    by (cases "filter (\<lambda>t. t \<ge> v) row") auto
  then have "t \<in> set (filter (\<lambda>t. t \<ge> v) row)" by simp
  then have "t \<in> set row" by simp
  with f show ?thesis by (auto simp: first_ge_def)
qed

lemma index_of_in: "v \<in> set xs \<Longrightarrow> \<exists>j. index_of v xs = Some j \<and> j < length xs \<and> xs ! j = v"
proof (induction xs)
  case Nil
  then show ?case by simp
next
  case (Cons x xs)
  then show ?case by (cases "x = v") auto
qed

lemma where_first_col_finds:
  "\<exists>r \<in> set th. v \<in> set r \<Longrightarrow> \<exists>j. where_first_col th v = Inr j"
proof (induction th)
  case Nil
  then show ?case by simp
next
  case (Cons r th)
  show ?case
  proof (cases "index_of v r")
    case None
    have "v \<notin> set r"
    proof
      assume "v \<in> set r"
      from index_of_in [OF this] None show False by simp
    qed
    with Cons.prems have "\<exists>r \<in> set th. v \<in> set r" by simp
    from Cons.IH [OF this] None show ?thesis by simp
  next
    case (Some j)
    then show ?thesis by simp
  qed
qed

lemma discretize_loop_succeeds:
  assumes "\<forall>i \<in> set js. i < length th \<and> (\<exists>t \<in> set (th ! i). feats ! i \<le> t)"
  shows "\<exists>st'. discretize_loop ns feats th js st = Inr st'"
  using assms
proof (induction js arbitrary: st)
  case Nil
  then show ?case by simp
next
  case (Cons i js)
  from Cons.prems have il: "i < length th" and c: "\<exists>t \<in> set (th ! i). feats ! i \<le> t"
    by simp_all
  from first_ge_finds [OF c] obtain t where
    t: "t \<in> set (th ! i)" "first_ge (th ! i) (feats ! i) = Inr t" by blast
  from il t(1) have "\<exists>r \<in> set th. t \<in> set r" by (auto intro: bexI [of _ "th ! i"])
  from where_first_col_finds [OF this] obtain j where j: "where_first_col th t = Inr j" by blast
  from Cons.prems have "\<forall>i \<in> set js. i < length th \<and> (\<exists>t \<in> set (th ! i). feats ! i \<le> t)"
    by simp
  from Cons.IH [OF this, of "st + int j * int ns ^ i"] il t(2) j
  show ?case by (simp add: bindE_def iloc_def)
qed

lemma in_sample_row_discretizes:
  assumes wf: "wf_frame F" and th: "get_thresholds F ns = Inr th" and d: "d \<in> set (df_index F)"
  shows "\<exists>row st. loc_row F d = Inr row \<and> discretize ns row pos th = Inr st"
proof -
  from index_of_in [OF d] obtain j where
    j: "index_of d (df_index F) = Some j" "j < length (df_index F)" by blast
  let ?row = "map (\<lambda>c. c ! j) (df_columns F)"
  from j have row: "loc_row F d = Inr ?row" by (simp add: loc_row_def)
  note cov = get_thresholds_cover [OF th]
  have "\<forall>i \<in> set [0..<length ?row]. i < length th \<and> (\<exists>t \<in> set (th ! i). ?row ! i \<le> t)"
  proof
    fix i assume "i \<in> set [0..<length ?row]"
    then have i: "i < length (df_columns F)" by simp
    then have "df_columns F ! i \<in> set (df_columns F)" by simp
    with wf have "length (df_columns F ! i) = length (df_index F)"
      by (simp add: wf_frame_def list_all_iff)
    with j(2) have "df_columns F ! i ! j \<in> set (df_columns F ! i)" by simp
    with cov(2) i have "\<exists>t \<in> set (th ! i). df_columns F ! i ! j \<le> t" by blast
    with i cov(1) show "i < length th \<and> (\<exists>t \<in> set (th ! i). ?row ! i \<le> t)" by simp
  qed
  from discretize_loop_succeeds [OF this] row show ?thesis
    unfolding discretize_def by blast
qed

lemma test_policy_days_finish:
  assumes wf: "wf_frame F" and th: "get_thresholds F ns = Inr th"
  shows "set ds \<subseteq> set (df_index F) \<Longrightarrow>
         \<exists>logs p q'. test_policy_days ns act F th ds pos q = Inr (logs, p, q')"
proof (induction ds arbitrary: pos q)
  case Nil
  then show ?case by simp
next
  case (Cons d ds)
  then have d: "d \<in> set (df_index F)" and rest: "set ds \<subseteq> set (df_index F)" by simp_all
  from in_sample_row_discretizes [OF wf th d, of "pos + 1"] obtain row st where
    r: "loc_row F d = Inr row" "discretize ns row (pos + 1) th = Inr st" by blast
  obtain action q1 where a: "act q \<lparr>call_state = st, call_reward = 0, call_update = False,
      call_done = False\<rparr> = (action, q1)" by (cases "act q \<lparr>call_state = st, call_reward = 0,
      call_update = False, call_done = False\<rparr>")
  from Cons.IH [OF rest, of "pos + (if d = last (df_index F) then - pos
       else get_position pos (action - 1))" q1]
  obtain logs p q' where "test_policy_days ns act F th ds (pos + (if d = last (df_index F)
      then - pos else get_position pos (action - 1))) q1 = Inr (logs, p, q')" by blast
  with r a show ?case by (simp add: bindE_def Let_def)
qed

lemma add_evidence_days_finish:
  assumes wf: "wf_frame F" and th: "get_thresholds F ns = Inr th"
  shows "\<forall>(day, d) \<in> set ds. d \<in> set (df_index F) \<and> d \<in> fst ` set P \<and> day < length P \<Longrightarrow>
         \<exists>logs p q'. add_evidence_days ns act P F th ds pos q = Inr (logs, p, q')"
proof (induction ds arbitrary: pos q)
  case Nil
  then show ?case by simp
next
  case (Cons a ds)
  obtain day d where a: "a = (day, d)" by (cases a)
  with Cons.prems have d: "d \<in> set (df_index F)" and dp: "d \<in> fst ` set P"
    and dl: "day < length P"
    and rest: "\<forall>(day, d) \<in> set ds. d \<in> set (df_index F) \<and> d \<in> fst ` set P \<and> day < length P"
    by simp_all
  from in_sample_row_discretizes [OF wf th d, of "pos + 1"] obtain row st where
    r: "loc_row F d = Inr row" "discretize ns row (pos + 1) th = Inr st" by blast
  have "\<exists>prev. iloc_int (map snd P) (int day - 1) = Inr prev"
    using dl by (cases "day = 0") (simp_all add: iloc_int_def Let_def)
  then obtain prev where prev: "iloc_int (map snd P) (int day - 1) = Inr prev" by blast
  from dp obtain curr where curr: "loc_price P d = Inr curr"
    by (cases "map_of P d") (auto simp: loc_price_def map_of_eq_None_iff)
  define call where "call =
      (if d = hd (df_index F)
       then \<lparr>call_state = st, call_reward = 0, call_update = False, call_done = False\<rparr>
       else \<lparr>call_state = st, call_reward = get_daily_reward prev curr pos,
              call_update = True, call_done = (d = last (df_index F))\<rparr>)"
  have call:
    "(if d = hd (df_index F)
      then Inr \<lparr>call_state = st, call_reward = 0, call_update = False, call_done = False\<rparr>
      else bindE (iloc_int (map snd P) (int day - 1)) (\<lambda>prev_price.
           bindE (loc_price P d) (\<lambda>curr_price.
             Inr \<lparr>call_state = st,
                  call_reward = get_daily_reward prev_price curr_price pos,
                  call_update = True,
                  call_done = (d = last (df_index F))\<rparr>))) = Inr call"
    using prev curr by (simp add: bindE_def call_def)
  obtain action q1 where act: "act q call = (action, q1)" by (cases "act q call")
  from Cons.IH [OF rest, of "pos + (if d = last (df_index F) then - pos
       else get_position pos (action - 1))" q1]
  obtain logs p q' where "add_evidence_days ns act P F th ds (pos + (if d = last (df_index F)
      then - pos else get_position pos (action - 1))) q1 = Inr (logs, p, q')" by blast
  with r call act show ?case unfolding a by (simp add: bindE_def Let_def)
qed

text \<open>
  The walks finish.  When the feature frame is well formed and \<open>get_thresholds\<close> returned
  a table for it, every row of the frame finds a threshold in each of its features (the
  last threshold of a row is the largest value of the column), so \<open>discretize\<close> returns a
  state on every day and \<open>test_policy\<close> returns its orders.  An epoch of \<open>add_evidence\<close>
  returns as well when the price series has the dates of the feature index and is at
  least as long.  So the results about finished walks speak about every such run.
\<close>

lemma walks_finish:
  assumes wf: "wf_frame (gf (gp s e))" and th: "get_thresholds (gf (gp s e)) ns = Inr th"
  shows "\<exists>logs p q'. test_policy ns act gp gf s e q = Inr (logs, p, q')"
    and "set (df_index (gf (gp s e))) \<subseteq> fst ` set (gp s e) \<Longrightarrow>
         length (df_index (gf (gp s e))) \<le> length (gp s e) \<Longrightarrow>
         \<exists>logs p q'. add_evidence_epoch ns act gp gf s e q = Inr (logs, p, q')"
proof -
  from test_policy_days_finish [OF wf th subset_refl, of act CASH q] th
  show "\<exists>logs p q'. test_policy ns act gp gf s e q = Inr (logs, p, q')"
    by (simp add: test_policy_def bindE_def Let_def)
next
  assume sub: "set (df_index (gf (gp s e))) \<subseteq> fst ` set (gp s e)"
    and len: "length (df_index (gf (gp s e))) \<le> length (gp s e)"
  have "\<forall>(day, d) \<in> set (enumerate 0 (df_index (gf (gp s e)))).
      d \<in> set (df_index (gf (gp s e))) \<and> d \<in> fst ` set (gp s e) \<and> day < length (gp s e)"
    using sub len by (auto simp: in_set_enumerate_eq)
  from add_evidence_days_finish [OF wf th this, of act CASH q] th
  show "\<exists>logs p q'. add_evidence_epoch ns act gp gf s e q = Inr (logs, p, q')"
    by (simp add: add_evidence_epoch_def bindE_def Let_def)
qed

section \<open>The sample runs\<close>

lemmas sample_eval =
  always_long_def sample_quotes_def sample_get_prices_def momentum_features_def
  add_evidence_epoch_def test_policy_def get_thresholds_def py_round_div_def bindE_def
  iloc_def iloc_last_def iloc_int_def loc_row_def loc_price_def discretize_def first_ge_def
  get_position_def get_daily_reward_def LONG_def SHORT_def CASH_def upt_rec sort_key_def

lemma sample_training_epoch:
  "add_evidence_epoch 2 always_long sample_get_prices momentum_features 101 114 () =
   Inr ([\<lparr>log_date = 111, log_position = 0,
           log_call = \<lparr>call_state = 2, call_reward = 0, call_update = False,
                        call_done = False\<rparr>,
           log_action = 2, log_order = 1, log_position_after = 1\<rparr>,
         \<lparr>log_date = 112, log_position = 1,
           log_call = \<lparr>call_state = 4, call_reward = 1 / 5, call_update = True,
                        call_done = False\<rparr>,
           log_action = 2, log_order = 0, log_position_after = 1\<rparr>,
         \<lparr>log_date = 113, log_position = 1,
           log_call = \<lparr>call_state = 4, call_reward = 3 / 10, call_update = True,
                        call_done = False\<rparr>,
           log_action = 2, log_order = 0, log_position_after = 1\<rparr>,
         \<lparr>log_date = 114, log_position = 1,
           log_call = \<lparr>call_state = 5, call_reward = 2 / 5, call_update = True,
                        call_done = True\<rparr>,
           log_action = 2, log_order = - 1, log_position_after = 0\<rparr>], 0, ())"
  by (simp add: sample_eval)

lemma sample_test_walk:
  "test_policy 2 always_long sample_get_prices momentum_features 115 128 () =
   Inr ([\<lparr>log_date = 125, log_position = 0,
           log_call = \<lparr>call_state = 3, call_reward = 0, call_update = False,
                        call_done = False\<rparr>,
           log_action = 2, log_order = 1, log_position_after = 1\<rparr>,
         \<lparr>log_date = 126, log_position = 1,
           log_call = \<lparr>call_state = 4, call_reward = 0, call_update = False,
                        call_done = False\<rparr>,
           log_action = 2, log_order = 0, log_position_after = 1\<rparr>,
         \<lparr>log_date = 127, log_position = 1,
           log_call = \<lparr>call_state = 4, call_reward = 0, call_update = False,
                        call_done = False\<rparr>,
           log_action = 2, log_order = 0, log_position_after = 1\<rparr>,
         \<lparr>log_date = 128, log_position = 1,
           log_call = \<lparr>call_state = 4, call_reward = 0, call_update = False,
                        call_done = False\<rparr>,
           log_action = 2, log_order = - 1, log_position_after = 0\<rparr>], 0, ())"
  by (simp add: sample_eval)

lemma sample_frames:
  "momentum_features (sample_get_prices 101 114) =
     \<lparr>df_index = [111, 112, 113, 114], df_columns = [[1 / 10, 1 / 5, 3 / 10, 2 / 5]]\<rparr>"
  "momentum_features (sample_get_prices 115 128) =
     \<lparr>df_index = [125, 126, 127, 128], df_columns = [[3 / 10, 1 / 10, 1 / 10, 1 / 10]]\<rparr>"
  by (simp_all add: sample_quotes_def sample_get_prices_def momentum_features_def)

text \<open>
  Claim C1, at the sample training period.  The feature index starts on day 111, the
  eleventh day of the prices, but \<open>prev_price\<close> is read at position \<open>day - 1\<close> of the price
  series, where \<open>day\<close> counts the rows of the feature index.  On days 112, 113 and 114 the
  agent, long one unit, is given the rewards \<open>120/100 - 1\<close>, \<open>130/100 - 1\<close> and
  \<open>140/100 - 1\<close>, computed against the closes of days 101, 102 and 103.  The returns on the
  preceding trading day's close are \<open>1/11\<close>, \<open>1/12\<close> and \<open>1/13\<close>.
\<close>

theorem add_evidence_reward_uses_stale_price:
  "(case add_evidence_epoch 2 always_long sample_get_prices momentum_features 101 114 () of
      Inl e \<Rightarrow> False
    | Inr (logs, p, q) \<Rightarrow>
        map (\<lambda>l. (log_date l, log_position l, call_reward (log_call l))) logs =
          [(111, 0, 0), (112, 1, 1 / 5), (113, 1, 3 / 10), (114, 1, 2 / 5)]) \<and>
   get_daily_reward 110 120 1 = 1 / 11 \<and>
   get_daily_reward 120 130 1 = 1 / 12 \<and>
   get_daily_reward 130 140 1 = 1 / 13 \<and>
   get_daily_reward 100 120 1 = 1 / 5"
  by (simp add: sample_training_epoch get_daily_reward_def)

text \<open>The table of C3 on the days before the last of the two sample walks.\<close>

theorem walk_orders_follow_table_witness:
  "(case add_evidence_epoch 2 always_long sample_get_prices momentum_features 101 114 () of
      Inl e \<Rightarrow> False
    | Inr (logs, p, q) \<Rightarrow>
        map (\<lambda>l. (log_position l, log_action l - 1, log_order l, log_position_after l))
          (butlast logs) = [(CASH, LONG, LONG, LONG), (LONG, LONG, CASH, LONG),
                            (LONG, LONG, CASH, LONG)]) \<and>
   (case test_policy 2 always_long sample_get_prices momentum_features 115 128 () of
      Inl e \<Rightarrow> False
    | Inr (logs, p, q) \<Rightarrow>
        map (\<lambda>l. (log_position l, log_action l - 1, log_order l, log_position_after l))
          (butlast logs) = [(CASH, LONG, LONG, LONG), (LONG, LONG, CASH, LONG),
                            (LONG, LONG, CASH, LONG)])"
  using walk_orders_follow_table [OF disjI1 [OF sample_training_epoch]]
    walk_orders_follow_table [OF disjI2 [OF sample_test_walk]]
  by (simp add: sample_training_epoch sample_test_walk sample_frames LONG_def CASH_def SHORT_def)

text \<open>
  C3 as stated fails on day 112 of the sample epoch, which is not the last day: the old
  position is LONG and the signal is LONG, the case "otherwise" of the table, yet the
  position after the day's order is LONG, not CASH.
\<close>

theorem position_follows_table_counterexample:
  "(case add_evidence_epoch 2 always_long sample_get_prices momentum_features 101 114 () of
      Inl e \<Rightarrow> False
    | Inr (logs, p, q) \<Rightarrow>
        log_date (logs ! 1) = 112 \<and>
        last (df_index (momentum_features (sample_get_prices 101 114))) = 114 \<and>
        log_position (logs ! 1) = LONG \<and> log_action (logs ! 1) - 1 = LONG \<and>
        log_position_after (logs ! 1) = LONG) \<and> LONG \<noteq> CASH"
  by (simp add: sample_training_epoch sample_frames LONG_def CASH_def)

lemma sample_thresholds:
  "get_thresholds (momentum_features (sample_get_prices 101 114)) 2 = Inr [[3 / 10, 2 / 5]]"
  "get_thresholds (momentum_features (sample_get_prices 115 128)) 2 = Inr [[1 / 10, 3 / 10]]"
  unfolding sample_frames
  by (simp_all add: get_thresholds_def py_round_div_def bindE_def iloc_def iloc_last_def
      upt_rec sort_key_def)

text \<open>C8 on the two sample walks.\<close>

theorem walk_positions_witness:
  "(case add_evidence_epoch 2 always_long sample_get_prices momentum_features 101 114 () of
      Inl e \<Rightarrow> False
    | Inr (logs, p, q) \<Rightarrow>
        map log_date logs = [111, 112, 113, 114] \<and>
        map log_position logs = butlast (CASH # map log_position_after logs) \<and>
        log_position_after (last logs) = CASH \<and> p = CASH) \<and>
   (case test_policy 2 always_long sample_get_prices momentum_features 115 128 () of
      Inl e \<Rightarrow> False
    | Inr (logs, p, q) \<Rightarrow>
        map log_date logs = [125, 126, 127, 128] \<and>
        map log_position logs = butlast (CASH # map log_position_after logs) \<and>
        log_position_after (last logs) = CASH \<and> p = CASH)"
proof -
  obtain logs p q where
    run: "add_evidence_epoch 2 always_long sample_get_prices momentum_features 101 114 ()
          = Inr (logs, p, q)" and ne: "logs \<noteq> []"
    using sample_training_epoch by blast
  obtain logs' p' q' where
    run': "test_policy 2 always_long sample_get_prices momentum_features 115 128 ()
          = Inr (logs', p', q')" and ne': "logs' \<noteq> []"
    using sample_test_walk by blast
  from walk_positions [OF disjI1 [OF run]] ne
  have "map log_date logs = df_index (momentum_features (sample_get_prices 101 114)) \<and>
        map log_position logs = butlast (CASH # map log_position_after logs) \<and>
        log_position_after (last logs) = CASH \<and> p = CASH" by blast
  moreover from walk_positions [OF disjI2 [OF run']] ne'
  have "map log_date logs' = df_index (momentum_features (sample_get_prices 115 128)) \<and>
        map log_position logs' = butlast (CASH # map log_position_after logs') \<and>
        log_position_after (last logs') = CASH \<and> p' = CASH" by blast
  ultimately show ?thesis by (simp add: run run' sample_frames)
qed

text \<open>C6 as amended on the sample test period.\<close>

theorem test_policy_thresholds_witness:
  "get_thresholds (momentum_features (sample_get_prices 115 128)) 2 = Inr [[1 / 10, 3 / 10]] \<and>
   (case test_policy 2 always_long sample_get_prices momentum_features 115 128 () of
      Inl e \<Rightarrow> False
    | Inr (logs, p, q) \<Rightarrow> map (\<lambda>l. call_state (log_call l)) logs = [3, 4, 4, 4])"
proof -
  from test_policy_thresholds [OF sample_test_walk]
  obtain th where
    "get_thresholds (momentum_features (sample_get_prices 115 128)) 2 = Inr th" by blast
  moreover have
    "get_thresholds \<lparr>df_index = [125, 126, 127, 128],
                     df_columns = [[3 / 10, 1 / 10, 1 / 10, 1 / 10]]\<rparr> 2
     = Inr [[1 / 10, 3 / 10]]"
    by (simp add: get_thresholds_def py_round_div_def bindE_def iloc_def iloc_last_def
        upt_rec sort_key_def)
  ultimately show ?thesis by (simp add: sample_test_walk sample_frames)
qed

text \<open>
  C6 as stated fails on the samples.  The training period gives the thresholds 3/10 and
  2/5, the test period 1/10 and 3/10.  The first test day, day 125, has the momentum 3/10
  and the position CASH; against the training thresholds it is state 2, and the state
  \<open>test_policy\<close> puts to the agent is 3, the one against the test period's own thresholds.
\<close>

theorem test_policy_training_thresholds_counterexample:
  "get_thresholds (momentum_features (sample_get_prices 101 114)) 2 = Inr [[3 / 10, 2 / 5]] \<and>
   get_thresholds (momentum_features (sample_get_prices 115 128)) 2 = Inr [[1 / 10, 3 / 10]] \<and>
   loc_row (momentum_features (sample_get_prices 115 128)) 125 = Inr [3 / 10] \<and>
   discretize 2 [3 / 10] (CASH + 1) [[3 / 10, 2 / 5]] = Inr 2 \<and>
   discretize 2 [3 / 10] (CASH + 1) [[1 / 10, 3 / 10]] = Inr 3 \<and>
   (case test_policy 2 always_long sample_get_prices momentum_features 115 128 () of
      Inl e \<Rightarrow> False
    | Inr (logs, p, q) \<Rightarrow>
        log_date (hd logs) = 125 \<and> log_position (hd logs) = CASH \<and>
        call_state (log_call (hd logs)) = 3)"
  using sample_thresholds
  by (simp add: sample_test_walk sample_frames bindE_def iloc_def
      loc_row_def discretize_def first_ge_def CASH_def)

section \<open>Properties of compute_portvals_single_symbol\<close>

lemma index_of_Some:
  "index_of v xs = Some j \<Longrightarrow> j < length xs \<and> xs ! j = v"
proof (induction xs arbitrary: j)
  case Nil
  then show ?case by simp
next
  case (Cons x xs)
  then show ?case by (cases "x = v") auto
qed

lemma index_of_None: "index_of v xs = None \<longleftrightarrow> v \<notin> set xs"
  by (induction xs) auto

lemma index_of_distinct:
  assumes "distinct xs" and "j < length xs"
  shows "index_of (xs ! j) xs = Some j"
proof -
  from assms(2) have "xs ! j \<in> set xs" by simp
  then obtain k where k: "index_of (xs ! j) xs = Some k"
    using index_of_None [of "xs ! j" xs] by (cases "index_of (xs ! j) xs") auto
  from index_of_Some [OF k] have "k < length xs" "xs ! k = xs ! j" by simp_all
  with assms have "k = j" by (simp add: nth_eq_iff_index_eq)
  with k show ?thesis by simp
qed
















subsection \<open>Sample orders\<close>



section \<open>Properties of compute_portvals_single_symbol in binary64\<close>

text \<open>
  Rounding a number whose significand is known: when \<open>|x| * 2^m\<close> lies between \<open>2^52\<close> and
  \<open>2^53\<close>, the unit in the last place of \<open>x\<close> is \<open>2^-m\<close>.
\<close>

lemma f64_zero: "f64 0 = 0"
  by (simp add: f64_def)

lemma f64_scaled:
  assumes lo: "2 ^ 52 \<le> \<bar>x\<bar> * 2 ^ m" and hi: "\<bar>x\<bar> * 2 ^ m < 2 ^ 53"
  shows "f64 x = of_int (round_half_even (x * 2 ^ m)) / 2 ^ m"
proof -
  from lo have nz: "x \<noteq> 0" by auto
  then have pos: "0 < \<bar>x\<bar>" by simp
  have p: "(2::real) powr (52 - real m) = 2 ^ 52 / 2 ^ m"
    by (simp add: powr_diff powr_realpow)
  have p': "(2::real) powr (53 - real m) = 2 ^ 53 / 2 ^ m"
    by (simp add: powr_diff powr_realpow)
  from lo have "2 powr (52 - real m) \<le> \<bar>x\<bar>"
    unfolding p by (simp add: field_simps)
  then have l1: "52 - real m \<le> log 2 \<bar>x\<bar>"
    using pos by (simp add: le_log_iff)
  from hi have "\<bar>x\<bar> < 2 powr (53 - real m)"
    unfolding p' by (simp add: field_simps)
  then have l2: "log 2 \<bar>x\<bar> < 53 - real m"
    using pos by (simp add: log_less_iff)
  have "\<lfloor>log 2 \<bar>x\<bar>\<rfloor> = 52 - int m"
    using l1 l2 by (intro floor_unique) simp_all
  then have e: "\<lfloor>log 2 \<bar>x\<bar>\<rfloor> - 52 = - int m" by simp
  have q: "(2::real) powr of_int (- int m) = 1 / 2 ^ m"
    by (simp add: powr_minus powr_realpow divide_simps)
  show ?thesis
    using nz unfolding f64_def e Let_def q by simp
qed

lemmas f64_eval =
  f64_zero f64_scaled [where m = 35] f64_scaled [where m = 36] f64_scaled [where m = 38]
  f64_scaled [where m = 42] f64_scaled [where m = 43] f64_scaled [where m = 53]
  round_half_even_def

lemmas market_eval_f64 =
  compute_portvals_single_symbol_f64_def calendar_get_data_def sample_quotes_def
  build_trades_f64_def trade_step_f64_def build_holdings_f64_def port_values_f64_def
  fill_prices_def bfill_def bindE_def sort_key_def upt_rec Let_def

text \<open>
  Three orders on day 112, at the close of 120, with commission 9.95, impact 0.005 and a
  start value of 100000; the two parameters are the binary64 numbers that Python reads
  for these literals.  A buy, a sale and a buy of 1000 shares return 98170.15000000001;
  the same rows as two buys and a sale return 98170.14999999998.
\<close>

lemma sample_same_day_orders:
  "fst (compute_portvals_single_symbol_f64 (calendar_get_data (map_of sample_quotes))
     [(112, 1000), (112, - 1000), (112, 1000)] 100000
     (2800676018271027 / 281474976710656) (5764607523034235 / 1152921504606846976)) =
   Inr [(112, 6746201339094631 / 68719476736)]"
  "fst (compute_portvals_single_symbol_f64 (calendar_get_data (map_of sample_quotes))
     [(112, 1000), (112, 1000), (112, - 1000)] 100000
     (2800676018271027 / 281474976710656) (5764607523034235 / 1152921504606846976)) =
   Inr [(112, 6746201339094629 / 68719476736)]"
  by (simp_all add: market_eval_f64 f64_eval)

lemma compute_f64_snd:
  "snd (compute_portvals_single_symbol_f64 gd df_orders sv c i) = sort_key fst df_orders"
  by (simp add: compute_portvals_single_symbol_f64_def Let_def)

text \<open>
  Claim C10, as the code has it.  The call leaves the caller's order frame sorted by date
  ascending, with the same rows; a frame whose dates were not ascending is therefore left
  changed.  The values returned are those of the frame as the call leaves it: a second
  call on that frame returns them again.  They are not a function of the rows alone:
  there are two frames with the same rows that return different values, since the cash
  of rows of one date is summed in binary64 in the order of the rows.
\<close>

theorem compute_portvals_sorts_orders:
  "sorted (map fst (snd (compute_portvals_single_symbol_f64 gd df_orders sv c i))) \<and>
   mset (snd (compute_portvals_single_symbol_f64 gd df_orders sv c i)) = mset df_orders \<and>
   (\<not> sorted (map fst df_orders) \<longrightarrow>
      snd (compute_portvals_single_symbol_f64 gd df_orders sv c i) \<noteq> df_orders) \<and>
   fst (compute_portvals_single_symbol_f64 gd
          (snd (compute_portvals_single_symbol_f64 gd df_orders sv c i)) sv c i) =
   fst (compute_portvals_single_symbol_f64 gd df_orders sv c i) \<and>
   (\<exists>xs ys gd' sv' c' i'. mset xs = mset ys \<and>
      fst (compute_portvals_single_symbol_f64 gd' xs sv' c' i') \<noteq>
      fst (compute_portvals_single_symbol_f64 gd' ys sv' c' i'))"
proof (intro conjI impI)
  show "sorted (map fst (snd (compute_portvals_single_symbol_f64 gd df_orders sv c i)))"
    by (simp add: compute_f64_snd)
  show "mset (snd (compute_portvals_single_symbol_f64 gd df_orders sv c i)) = mset df_orders"
    by (simp add: compute_f64_snd)
next
  assume u: "\<not> sorted (map fst df_orders)"
  show "snd (compute_portvals_single_symbol_f64 gd df_orders sv c i) \<noteq> df_orders"
  proof
    assume "snd (compute_portvals_single_symbol_f64 gd df_orders sv c i) = df_orders"
    then have e: "sort_key fst df_orders = df_orders" by (simp add: compute_f64_snd)
    have "sorted (map fst (sort_key fst df_orders))" by simp
    with e have "sorted (map fst df_orders)" by simp
    with u show False by simp
  qed
next
  have "sort_key fst (sort_key fst df_orders) = sort_key fst df_orders"
    by (rule sort_key_id_if_sorted) simp
  then show "fst (compute_portvals_single_symbol_f64 gd
          (snd (compute_portvals_single_symbol_f64 gd df_orders sv c i)) sv c i) =
      fst (compute_portvals_single_symbol_f64 gd df_orders sv c i)"
    unfolding compute_f64_snd
    by (simp add: compute_portvals_single_symbol_f64_def)
next
  have m: "mset [(112 :: nat, 1000 :: real), (112, - 1000), (112, 1000)] =
           mset [(112, 1000), (112, 1000), (112, - 1000)]" by simp
  have "fst (compute_portvals_single_symbol_f64 (calendar_get_data (map_of sample_quotes))
     [(112, 1000), (112, - 1000), (112, 1000)] 100000
     (2800676018271027 / 281474976710656) (5764607523034235 / 1152921504606846976)) \<noteq>
    fst (compute_portvals_single_symbol_f64 (calendar_get_data (map_of sample_quotes))
     [(112, 1000), (112, 1000), (112, - 1000)] 100000
     (2800676018271027 / 281474976710656) (5764607523034235 / 1152921504606846976))"
    unfolding sample_same_day_orders by simp
  with m show "\<exists>xs ys gd' sv' c' i'. mset xs = mset ys \<and>
      fst (compute_portvals_single_symbol_f64 gd' xs sv' c' i') \<noteq>
      fst (compute_portvals_single_symbol_f64 gd' ys sv' c' i')"
    by blast
qed

text \<open>
  C10 as amended at sample orders: the sale of day 113 listed before the buy of day 111
  comes back behind it.
\<close>

theorem compute_portvals_sorts_orders_witness:
  "snd (compute_portvals_single_symbol_f64 (calendar_get_data (map_of sample_quotes))
         [(113, - 10), (111, 10)] 100000 0 0) = [(111, 10), (113, - 10)] \<and>
   snd (compute_portvals_single_symbol_f64 (calendar_get_data (map_of sample_quotes))
         [(113, - 10), (111, 10)] 100000 0 0) \<noteq> [(113, - 10), (111, 10)]"
proof -
  have u: "\<not> sorted (map fst [(113 :: nat, - 10 :: real), (111, 10)])" by simp
  from compute_portvals_sorts_orders
    [of "calendar_get_data (map_of sample_quotes)" "[(113, - 10), (111, 10)]" 100000 0 0] u
  have "snd (compute_portvals_single_symbol_f64 (calendar_get_data (map_of sample_quotes))
         [(113, - 10), (111, 10)] 100000 0 0) \<noteq> [(113, - 10), (111, 10)]" by blast
  then show ?thesis by (simp add: compute_f64_snd sort_key_def)
qed

text \<open>
  C10 as stated fails: the two frames of day 112 above have the same rows, and the values
  returned for them differ in the last bits.
\<close>

theorem compute_portvals_order_counterexample:
  "mset [(112 :: nat, 1000 :: real), (112, - 1000), (112, 1000)] =
     mset [(112, 1000), (112, 1000), (112, - 1000)] \<and>
   fst (compute_portvals_single_symbol_f64 (calendar_get_data (map_of sample_quotes))
     [(112, 1000), (112, - 1000), (112, 1000)] 100000
     (2800676018271027 / 281474976710656) (5764607523034235 / 1152921504606846976)) =
   Inr [(112, 6746201339094631 / 68719476736)] \<and>
   fst (compute_portvals_single_symbol_f64 (calendar_get_data (map_of sample_quotes))
     [(112, 1000), (112, 1000), (112, - 1000)] 100000
     (2800676018271027 / 281474976710656) (5764607523034235 / 1152921504606846976)) =
   Inr [(112, 6746201339094629 / 68719476736)] \<and>
   (6746201339094631 / 68719476736 :: real) \<noteq> 6746201339094629 / 68719476736"
  using sample_same_day_orders by simp

end
